theory Spec2Isabelle
  imports Main "HOL-Library.Word"
begin

section \<open>The voting contract of Voting.ts\<close>

text \<open>
  The contract keeps a Merkle root of an off-chain set of voters and two counters.
  It is written against the o1js library. The library's values are modelled as follows.
  \<^item> A \<open>Field\<close> is a natural number (a residue of the field order); the contract never
    calculates with field elements except through \<open>UInt32.add\<close>, which is range checked.
  \<^item> \<open>Poseidon.hash\<close> is not part of the repository: every function that hashes takes it
    as its first argument \<open>H\<close>.
  \<^item> A \<open>UInt32\<close> is a JavaScript object: it has an identity (\<open>oid\<close>) and holds a 32-bit
    value (\<open>val\<close>). \<open>UInt32.from(n)\<close> on a number makes a new object, and \<open>===\<close>
    compares identities, not values.
\<close>

type_synonym Field = nat

type_synonym Poseidon = "Field list \<Rightarrow> Field"

record UInt32 =
  oid :: nat
  val :: "32 word"

record PublicKey =
  pk_x :: Field
  pk_isOdd :: bool

text \<open>\<open>class Voter extends Struct({ publicKey: PublicKey, decision: UInt32 })\<close>\<close>

record Voter =
  publicKey :: PublicKey
  decision :: UInt32

text \<open>
  The five \<open>@state\<close> fields of \<open>class Voting\<close>. On-chain state holds field elements, and
  \<open>State.get\<close> builds a new object from them each time, so the two counters are kept
  by value.
\<close>

record Voting =
  root :: Field
  agreeVotes :: "32 word"
  disagreeVotes :: "32 word"
  title :: Field
  description :: Field

datatype error =
    AssertGreaterThanFailed
  | AssertLessThanFailed
  | AssertEqualsFailed
  | RangeCheckFailed
  | PreconditionFailed

subsection \<open>Library operations\<close>

text \<open>
  Object allocation is a counter of identities: \<open>UInt32_from h n\<close> is \<open>UInt32.from(n)\<close>
  for a number \<open>n\<close> with \<open>h\<close> the next unused identity; it returns the new object and
  the next unused identity.
\<close>

definition UInt32_from :: "nat \<Rightarrow> 32 word \<Rightarrow> UInt32 \<times> nat" where
  "UInt32_from h n = (\<lparr>oid = h, val = n\<rparr>, Suc h)"

text \<open>\<open>State<UInt32>.get()\<close>: a new object holding the stored value.\<close>

definition State_get :: "nat \<Rightarrow> 32 word \<Rightarrow> UInt32 \<times> nat" where
  "State_get h v = (\<lparr>oid = h, val = v\<rparr>, Suc h)"

text \<open>\<open>a === b\<close> on two objects.\<close>

definition strict_equals :: "UInt32 \<Rightarrow> UInt32 \<Rightarrow> bool" where
  "strict_equals a b = (oid a = oid b)"

text \<open>
  \<open>a.add(n)\<close> for a number \<open>n\<close>: the sum is range checked to 32 bits, so an overflow
  fails; the result is a new object.
\<close>

definition UInt32_add :: "nat \<Rightarrow> UInt32 \<Rightarrow> 32 word \<Rightarrow> error + (UInt32 \<times> nat)" where
  "UInt32_add h a n =
     (let (b, h1) = UInt32_from h n in
      if unat (val a) + unat (val b) < 2 ^ 32
      then Inr (\<lparr>oid = h1, val = val a + val b\<rparr>, Suc h1)
      else Inl RangeCheckFailed)"

text \<open>
  An identity above those of all the objects a call receives: what the call allocates
  is distinct from its arguments.
\<close>

definition fresh_above :: "nat list \<Rightarrow> nat" where
  "fresh_above live = Suc (foldr max live 0)"

text \<open>
  \<open>class MyMerkleWitness extends MerkleWitness(8)\<close>: the path from a leaf to the root,
  one entry per level below the root (seven for height 8), each the sibling's hash and
  whether the node on the path is the left child. \<open>calculateRoot\<close> hashes its way up.
\<close>

type_synonym MyMerkleWitness = "(bool \<times> Field) list"

fun calculateRoot :: "Poseidon \<Rightarrow> MyMerkleWitness \<Rightarrow> Field \<Rightarrow> Field" where
  "calculateRoot H [] h = h"
| "calculateRoot H ((isLeft, sibling) # rest) h =
     calculateRoot H rest (H (if isLeft then [h, sibling] else [sibling, h]))"

subsection \<open>Voter\<close>

text \<open>\<open>Voter.toFields\<close>: the fields of the struct in declaration order.\<close>

definition toFields :: "Voter \<Rightarrow> Field list" where
  "toFields v =
     [pk_x (publicKey v), (if pk_isOdd (publicKey v) then 1 else 0), unat (val (decision v))]"

definition hash :: "Poseidon \<Rightarrow> Voter \<Rightarrow> Field" where
  "hash H v = H (toFields v)"

definition setDecision :: "Voter \<Rightarrow> UInt32 \<Rightarrow> Voter" where
  "setDecision v d = \<lparr>publicKey = publicKey v, decision = d\<rparr>"

subsection \<open>Voting\<close>

text \<open>
  \<open>init\<close>: \<open>super.init()\<close> sets every state field to zero, then the root is set to the
  module variable \<open>initialRoot\<close> (a parameter here) and the counters to zero.
\<close>

definition super_init :: Voting where
  "super_init = \<lparr>root = 0, agreeVotes = 0, disagreeVotes = 0, title = 0, description = 0\<rparr>"

definition init :: "Field \<Rightarrow> Voting" where
  "init initialRoot =
     (let c = super_init;
          c = c\<lparr>root := initialRoot\<rparr>;
          (z1, h1) = UInt32_from 0 0;
          c = c\<lparr>agreeVotes := val z1\<rparr>;
          (z2, h2) = UInt32_from h1 0;
          c = c\<lparr>disagreeVotes := val z2\<rparr>
      in c)"

text \<open>\<open>state.requireEquals(v)\<close>: the transaction is valid only on a state holding \<open>v\<close>.\<close>

definition requireEquals :: "'a \<Rightarrow> 'a \<Rightarrow> bool" where
  "requireEquals on_chain v = (on_chain = v)"

text \<open>
  \<open>vote\<close>, statement by statement. \<open>c\<close> is the contract's state when the transaction is
  built and applied; the result is the state the transaction writes, or the first
  assertion that fails.
\<close>

definition vote :: "Poseidon \<Rightarrow> Voter \<Rightarrow> UInt32 \<Rightarrow> MyMerkleWitness \<Rightarrow> Voting \<Rightarrow> error + Voting" where
  "vote H voter0 d path c =
     (let h0 = fresh_above [oid d, oid (decision voter0)];
          r = root c
      in if \<not> requireEquals (root c) r then Inl PreconditionFailed else
      let (zero, h1) = UInt32_from h0 0;
          voter = setDecision voter0 zero;
          (k0, h2) = UInt32_from h1 0
      in if \<not> val k0 < val d then Inl AssertGreaterThanFailed else
      let (k3, h3) = UInt32_from h2 3
      in if \<not> val d < val k3 then Inl AssertLessThanFailed else
      if calculateRoot H path (hash H voter) \<noteq> r then Inl AssertEqualsFailed else
      let newVoter = setDecision voter d;
          newRoot = calculateRoot H path (hash H newVoter);
          (k1, h4) = UInt32_from h3 1
      in if strict_equals d k1 then
           (let (g, h5) = State_get h4 (agreeVotes c)
            in if \<not> requireEquals (agreeVotes c) (val g) then Inl PreconditionFailed else
            let (currentAgreeVotes, h6) = State_get h5 (agreeVotes c)
            in case UInt32_add h6 currentAgreeVotes 1 of
                 Inl e \<Rightarrow> Inl e
               | Inr (s, h7) \<Rightarrow> Inr (c\<lparr>agreeVotes := val s, root := newRoot\<rparr>))
         else
           (let (g, h5) = State_get h4 (disagreeVotes c)
            in if \<not> requireEquals (disagreeVotes c) (val g) then Inl PreconditionFailed else
            let (currentDisagreeVotes, h6) = State_get h5 (disagreeVotes c)
            in case UInt32_add h6 currentDisagreeVotes 1 of
                 Inl e \<Rightarrow> Inl e
               | Inr (s, h7) \<Rightarrow> Inr (c\<lparr>agreeVotes := val s, root := newRoot\<rparr>)))"

text \<open>
  The contract's state after a transaction that calls \<open>vote\<close>: an assertion that fails
  throws inside \<open>Mina.transaction\<close>, nothing is proved or sent, and the state stays as
  it was.
\<close>

definition apply_vote :: "Poseidon \<Rightarrow> Voter \<Rightarrow> UInt32 \<Rightarrow> MyMerkleWitness \<Rightarrow> Voting \<Rightarrow> Voting" where
  "apply_vote H voter d path c =
     (case vote H voter d path c of Inl e \<Rightarrow> c | Inr c' \<Rightarrow> c')"

text \<open>
  The hash of a voter depends on the key and on the value of the decision only.
\<close>

definition leaf_hash :: "Poseidon \<Rightarrow> PublicKey \<Rightarrow> 32 word \<Rightarrow> Field" where
  "leaf_hash H k n = H [pk_x k, (if pk_isOdd k then 1 else 0), unat n]"

text \<open>
  The states that accepted calls of \<open>vote\<close> lead to from \<open>init\<close>.
\<close>

inductive reachable :: "Poseidon \<Rightarrow> Field \<Rightarrow> Voting \<Rightarrow> bool" for H :: Poseidon and r :: Field where
  reachable_init: "reachable H r (init r)"
| reachable_vote: "reachable H r c \<Longrightarrow> vote H voter d path c = Inr c' \<Longrightarrow> reachable H r c'"

subsection \<open>Data for closed examples\<close>

text \<open>
  The closed examples below need a concrete hash in the place of \<open>Poseidon.hash\<close>, keys
  and paths. \<open>toy_hash\<close> is a small polynomial hash; it stands for no property of
  Poseidon, and no theorem about all calls of \<open>vote\<close> depends on it.

  As in the script, Bob is at leaf 0 and Alice at leaf 1, both with decision 0, so
  each one's hash is the first sibling on the other's path; the siblings further up
  stand for the rest of the tree. \<open>d_agree\<close> and \<open>d_disagree\<close> are decision objects a
  caller makes with \<open>UInt32.from(1)\<close> and \<open>UInt32.from(2)\<close>, \<open>d_three\<close> with
  \<open>UInt32.from(3)\<close>.
\<close>

definition toy_hash :: Poseidon where
  "toy_hash xs = foldl (\<lambda>a x. (a * 31 + x + 7) mod 1000003) 1 xs"

definition bob :: Voter where
  "bob = \<lparr>publicKey = \<lparr>pk_x = 101, pk_isOdd = False\<rparr>, decision = \<lparr>oid = 0, val = 0\<rparr>\<rparr>"

definition alice :: Voter where
  "alice = \<lparr>publicKey = \<lparr>pk_x = 202, pk_isOdd = True\<rparr>, decision = \<lparr>oid = 1, val = 0\<rparr>\<rparr>"

definition d_agree :: UInt32 where
  "d_agree = \<lparr>oid = 4, val = 1\<rparr>"

definition d_disagree :: UInt32 where
  "d_disagree = \<lparr>oid = 5, val = 2\<rparr>"

definition d_three :: UInt32 where
  "d_three = \<lparr>oid = 6, val = 3\<rparr>"

definition upper_siblings :: MyMerkleWitness where
  "upper_siblings = [(True, 12), (True, 13), (True, 14), (True, 15), (True, 16), (True, 17)]"

definition bob_path :: MyMerkleWitness where
  "bob_path = (True, hash toy_hash alice) # upper_siblings"

definition bob_root :: Field where
  "bob_root = calculateRoot toy_hash bob_path (hash toy_hash bob)"

text \<open>The contract's state after Bob's vote to agree, the first of the script.\<close>

definition after_bob :: Voting where
  "after_bob = apply_vote toy_hash bob d_agree bob_path (init bob_root)"

text \<open>Alice's path in the tree once Bob's leaf holds his record with decision 1.\<close>

definition alice_path :: MyMerkleWitness where
  "alice_path = (False, hash toy_hash (setDecision bob d_agree)) # upper_siblings"

text \<open>
  A tree that holds Bob's record twice, at leaves 0 and 1: the path of leaf 0, the root,
  the state after Bob's vote through leaf 0, and the path of leaf 1 in the tree updated
  by that vote.
\<close>

definition twin_path0 :: MyMerkleWitness where
  "twin_path0 = (True, hash toy_hash bob) # upper_siblings"

definition twin_root :: Field where
  "twin_root = calculateRoot toy_hash twin_path0 (hash toy_hash bob)"

definition after_twin :: Voting where
  "after_twin = apply_vote toy_hash bob d_agree twin_path0 (init twin_root)"

definition twin_path1 :: MyMerkleWitness where
  "twin_path1 = (False, hash toy_hash (bob\<lparr>decision := d_agree\<rparr>)) # upper_siblings"

section \<open>What a call of vote does\<close>

lemma fresh_above_gt: "a \<in> set live \<Longrightarrow> a < fresh_above live"
proof -
  have "a \<in> set live \<Longrightarrow> a \<le> foldr max live 0"
    by (induction live) (auto simp: max_def)
  then show "a \<in> set live \<Longrightarrow> a < fresh_above live"
    by (simp add: fresh_above_def less_Suc_eq_le)
qed

text \<open>
  The object that \<open>UInt32.from(1)\<close> makes in the condition of the \<open>if\<close> is never the
  object passed as \<open>decision\<close>.
\<close>

lemma strict_equals_new:
  "\<not> strict_equals d
       (fst (UInt32_from (Suc (Suc (Suc (fresh_above [oid d, oid (decision voter0)])))) n))"
  using fresh_above_gt [of "oid d" "[oid d, oid (decision voter0)]"]
  by (simp add: strict_equals_def UInt32_from_def)

lemma UInt32_add_one:
  "UInt32_add h a 1 =
     (if val a = - 1 then Inl RangeCheckFailed
      else Inr (\<lparr>oid = Suc h, val = val a + 1\<rparr>, Suc (Suc h)))"
proof -
  have "unat (val a) < 2 ^ 32"
    using unsigned_less [of "val a", where 'a = nat] by simp
  moreover have "(val a = - 1) = (unat (val a) = unat (- 1 :: 32 word))"
    by (simp only: word_unat_eq_iff)
  moreover have "unat (- 1 :: 32 word) = 4294967295"
    by (simp add: unsigned_minus_1_eq_mask mask_eq_exp_minus_1)
  ultimately have "(unat (val a) + 1 < 2 ^ 32) = (val a \<noteq> - 1)"
    by auto
  then show ?thesis by (simp add: UInt32_add_def UInt32_from_def)
qed

lemma hash_setDecision:
  "hash H (setDecision v z) = leaf_hash H (publicKey v) (val z)"
  by (simp add: hash_def toFields_def setDecision_def leaf_hash_def)

lemma hash_leaf_hash: "hash H v = leaf_hash H (publicKey v) (val (decision v))"
  by (simp add: hash_def toFields_def leaf_hash_def)

lemma hash_update: "hash H (v\<lparr>decision := z\<rparr>) = leaf_hash H (publicKey v) (val z)"
  by (simp add: hash_def toFields_def leaf_hash_def)

lemma publicKey_setDecision: "publicKey (setDecision v z) = publicKey v"
  by (simp add: setDecision_def)

text \<open>
  All the paths of \<open>vote\<close> in one equation: the three assertions in the order of the
  source, the range check of \<open>add\<close>, and the state written by the \<open>else\<close> branch, the
  only branch that runs.
\<close>

lemma vote_eq:
  "vote H voter0 d path c =
     (if val d = 0 then Inl AssertGreaterThanFailed
      else if \<not> val d < 3 then Inl AssertLessThanFailed
      else if calculateRoot H path (leaf_hash H (publicKey voter0) 0) \<noteq> root c
        then Inl AssertEqualsFailed
      else if disagreeVotes c = - 1 then Inl RangeCheckFailed
      else Inr (c\<lparr>agreeVotes := disagreeVotes c + 1,
                  root := calculateRoot H path (leaf_hash H (publicKey voter0) (val d))\<rparr>))"
  using strict_equals_new [of d voter0 1]
  by (simp add: vote_def Let_def requireEquals_def State_get_def UInt32_add_one
      hash_def toFields_def setDecision_def leaf_hash_def word_neq_0_conv UInt32_from_def
      split: prod.splits)

lemma vote_Inr_iff:
  "(vote H voter0 d path c = Inr c') =
     (val d \<noteq> 0 \<and> val d < 3
      \<and> calculateRoot H path (leaf_hash H (publicKey voter0) 0) = root c
      \<and> disagreeVotes c \<noteq> - 1
      \<and> c' = c\<lparr>agreeVotes := disagreeVotes c + 1,
                 root := calculateRoot H path (leaf_hash H (publicKey voter0) (val d))\<rparr>)"
  by (auto simp: vote_eq)

lemma decision_range: "(d \<noteq> 0 \<and> d < 3) = (d = 1 \<or> d = 2)" for d :: "32 word"
proof -
  have "(d = 0) = (unat d = unat (0 :: 32 word))" "(d = 1) = (unat d = unat (1 :: 32 word))"
    "(d = 2) = (unat d = unat (2 :: 32 word))" "(d < 3) = (unat d < unat (3 :: 32 word))"
    by (simp_all only: word_less_nat_alt word_unat_eq_iff)
  then show ?thesis by auto
qed

lemma init_eq:
  "init r = \<lparr>root = r, agreeVotes = 0, disagreeVotes = 0, title = 0, description = 0\<rparr>"
  by (simp add: init_def super_init_def UInt32_from_def)

subsection \<open>The closed examples, evaluated\<close>

lemma bob_root_eq:
  "calculateRoot toy_hash bob_path (leaf_hash toy_hash (publicKey bob) 0) = bob_root"
  by (simp add: bob_root_def hash_leaf_hash bob_def)

lemma bob_roots_differ:
  "calculateRoot toy_hash bob_path (leaf_hash toy_hash (publicKey bob) 1) \<noteq> bob_root"
  "calculateRoot toy_hash bob_path (leaf_hash toy_hash (publicKey bob) 2) \<noteq> bob_root"
  by (simp_all add: bob_root_def bob_path_def upper_siblings_def toy_hash_def leaf_hash_def
      hash_def toFields_def bob_def alice_def)

lemma vote_bob_agree:
  "vote toy_hash bob d_agree bob_path (init bob_root)
     = Inr \<lparr>root = calculateRoot toy_hash bob_path (leaf_hash toy_hash (publicKey bob) 1),
        agreeVotes = 1, disagreeVotes = 0, title = 0, description = 0\<rparr>"
  by (simp add: vote_eq bob_root_eq init_eq d_agree_def)

lemma after_bob_eq:
  "after_bob = \<lparr>root = calculateRoot toy_hash bob_path (leaf_hash toy_hash (publicKey bob) 1),
        agreeVotes = 1, disagreeVotes = 0, title = 0, description = 0\<rparr>"
  by (simp add: after_bob_def apply_vote_def vote_bob_agree)

lemma vote_bob_agree_after: "vote toy_hash bob d_agree bob_path (init bob_root) = Inr after_bob"
  by (simp add: vote_bob_agree after_bob_eq)

lemma alice_path_root:
  "calculateRoot toy_hash alice_path (leaf_hash toy_hash (publicKey alice) 0) = root after_bob"
  by (simp add: after_bob_eq alice_path_def bob_path_def hash_leaf_hash setDecision_def
      d_agree_def alice_def)

section \<open>The claims\<close>

subsection \<open>C8: init\<close>

text \<open>
  C8. \<open>init\<close> sets the root to the initial commitment it is given and both
  \<open>agreeVotes\<close> and \<open>disagreeVotes\<close> to zero.
\<close>

theorem init_sets_root_and_counters:
  "root (init initialRoot) = initialRoot \<and> agreeVotes (init initialRoot) = 0
     \<and> disagreeVotes (init initialRoot) = 0"
  by (simp add: init_def super_init_def UInt32_from_def)

subsection \<open>C2: a decision outside 1 and 2\<close>

text \<open>
  C2. A call of \<open>vote\<close> with a decision that is neither 1 nor 2 fails, and the state
  (so \<open>agreeVotes\<close>, \<open>disagreeVotes\<close> and \<open>root\<close>) is as before.
\<close>

theorem vote_rejects_decision_outside_1_2:
  assumes "val d \<noteq> 1" and "val d \<noteq> 2"
  shows "(\<exists>e. vote H voter d path c = Inl e) \<and> apply_vote H voter d path c = c"
proof -
  from assms have "val d = 0 \<or> \<not> val d < 3"
    using decision_range [of "val d"] by blast
  then have "vote H voter d path c = Inl AssertGreaterThanFailed
      \<or> vote H voter d path c = Inl AssertLessThanFailed"
    by (auto simp: vote_eq)
  then show ?thesis
    by (auto simp: apply_vote_def)
qed

theorem vote_rejects_decision_outside_1_2_witness:
  "val d_three \<noteq> 1 \<and> val d_three \<noteq> 2
   \<and> (\<exists>e. vote toy_hash bob d_three bob_path (init bob_root) = Inl e)
   \<and> apply_vote toy_hash bob d_three bob_path (init bob_root) = init bob_root"
proof -
  have "val d_three \<noteq> 1" and "val d_three \<noteq> 2"
    by (simp_all add: d_three_def)
  then show ?thesis
    using vote_rejects_decision_outside_1_2 [of d_three toy_hash bob bob_path "init bob_root"]
    by blast
qed

subsection \<open>C3: a proof that does not give the committed root\<close>

text \<open>
  C3. If the root recomputed with the supplied path from the hash of the supplied voter
  with decision zero is not the committed root, the call fails and the state is as
  before. In particular a path that gave the root committed before an accepted vote
  changed it is rejected afterwards.
\<close>

theorem vote_rejects_root_mismatch:
  "(calculateRoot H path (hash H (setDecision voter \<lparr>oid = k, val = 0\<rparr>)) \<noteq> root c
      \<longrightarrow> (\<exists>e. vote H voter d path c = Inl e) \<and> apply_vote H voter d path c = c)
   \<and> (vote H voter1 d1 path1 c0 = Inr c \<and> root c \<noteq> root c0
       \<and> calculateRoot H path (hash H (setDecision voter \<lparr>oid = k, val = 0\<rparr>)) = root c0
      \<longrightarrow> (\<exists>e. vote H voter d path c = Inl e) \<and> apply_vote H voter d path c = c)"
proof -
  have "(\<exists>e. vote H voter d path c = Inl e) \<and> apply_vote H voter d path c = c"
    if "calculateRoot H path (hash H (setDecision voter \<lparr>oid = k, val = 0\<rparr>)) \<noteq> root c"
    using that by (simp add: vote_eq apply_vote_def hash_setDecision)
  then show ?thesis by metis
qed

theorem vote_rejects_root_mismatch_witness:
  "calculateRoot toy_hash bob_path (hash toy_hash (setDecision bob \<lparr>oid = 9, val = 0\<rparr>))
      \<noteq> root after_bob
   \<and> vote toy_hash bob d_agree bob_path (init bob_root) = Inr after_bob
   \<and> root after_bob \<noteq> root (init bob_root)
   \<and> calculateRoot toy_hash bob_path (hash toy_hash (setDecision bob \<lparr>oid = 9, val = 0\<rparr>))
      = root (init bob_root)
   \<and> (\<exists>e. vote toy_hash bob d_disagree bob_path after_bob = Inl e)
   \<and> apply_vote toy_hash bob d_disagree bob_path after_bob = after_bob"
proof -
  have b: "root after_bob \<noteq> root (init bob_root)"
    by (simp add: after_bob_eq init_eq bob_roots_differ)
  have c: "calculateRoot toy_hash bob_path
      (hash toy_hash (setDecision bob \<lparr>oid = 9, val = 0\<rparr>)) = root (init bob_root)"
    by (simp add: hash_setDecision bob_root_eq init_eq)
  from vote_bob_agree_after b c
    vote_rejects_root_mismatch [of toy_hash bob_path bob 9 after_bob d_disagree
      bob d_agree bob_path "init bob_root"]
  show ?thesis by metis
qed

subsection \<open>C6: the new root\<close>

text \<open>
  C6. When a call of \<open>vote\<close> succeeds, the root it writes is the root recomputed with
  the same path from the hash of the record that is the zeroed input record with its
  decision field set to the decision argument: the hash of the key's two fields and
  the value of the decision argument.
\<close>

theorem vote_writes_new_root:
  assumes "vote H voter d path c = Inr c'"
  shows "root c' = calculateRoot H path
           (hash H ((voter\<lparr>decision := \<lparr>oid = k, val = 0\<rparr>\<rparr>)\<lparr>decision := d\<rparr>))
         \<and> root c' = calculateRoot H path
           (H [pk_x (publicKey voter), (if pk_isOdd (publicKey voter) then 1 else 0),
               unat (val d)])"
  using assms
  by (simp add: vote_Inr_iff hash_update) (simp add: leaf_hash_def)

theorem vote_writes_new_root_witness:
  "vote toy_hash bob d_agree bob_path (init bob_root) = Inr after_bob
   \<and> root after_bob = calculateRoot toy_hash bob_path
           (hash toy_hash ((bob\<lparr>decision := \<lparr>oid = 9, val = 0\<rparr>\<rparr>)\<lparr>decision := d_agree\<rparr>))
   \<and> root after_bob = calculateRoot toy_hash bob_path
           (toy_hash [pk_x (publicKey bob), (if pk_isOdd (publicKey bob) then 1 else 0),
               unat (val d_agree)])"
  using vote_writes_new_root [OF vote_bob_agree_after, of 9] vote_bob_agree_after
  by blast

subsection \<open>C7: the claimed decision is zeroed\<close>

text \<open>
  C7. The decision in the voter record the caller supplies is replaced by zero before
  anything is checked: whatever decision the record claims, the call does the same,
  and the membership check is the one on the record with decision zero (with a valid
  decision and a counter that can still grow, the call succeeds exactly when the hash
  of the record with decision zero recomputes the committed root).
\<close>

theorem vote_checks_zeroed_record:
  "vote H (voter\<lparr>decision := claimed\<rparr>) d path c = vote H voter d path c
   \<and> (vote H voter d path c = Inr c'
        \<longrightarrow> calculateRoot H path (hash H (voter\<lparr>decision := \<lparr>oid = k, val = 0\<rparr>\<rparr>)) = root c
          \<and> calculateRoot H path
               (H [pk_x (publicKey voter), (if pk_isOdd (publicKey voter) then 1 else 0), 0])
             = root c)
   \<and> ((val d = 1 \<or> val d = 2) \<and> disagreeVotes c \<noteq> - 1
        \<longrightarrow> (\<exists>c''. vote H voter d path c = Inr c'')
            = (calculateRoot H path (hash H (voter\<lparr>decision := \<lparr>oid = k, val = 0\<rparr>\<rparr>)) = root c))"
proof -
  have "val d \<noteq> 0 \<and> val d < 3" if "val d = 1 \<or> val d = 2"
    using that decision_range [of "val d"] by simp
  moreover have "leaf_hash H (publicKey voter) 0
      = H [pk_x (publicKey voter), (if pk_isOdd (publicKey voter) then 1 else 0), 0]"
    by (simp add: leaf_hash_def)
  ultimately show ?thesis
    by (auto simp: vote_eq hash_update)
qed

theorem vote_checks_zeroed_record_witness:
  "vote toy_hash (bob\<lparr>decision := d_disagree\<rparr>) d_agree bob_path (init bob_root)
     = vote toy_hash bob d_agree bob_path (init bob_root)
   \<and> vote toy_hash bob d_agree bob_path (init bob_root) = Inr after_bob
   \<and> calculateRoot toy_hash bob_path (hash toy_hash (bob\<lparr>decision := \<lparr>oid = 9, val = 0\<rparr>\<rparr>))
       = root (init bob_root)
   \<and> calculateRoot toy_hash bob_path
        (toy_hash [pk_x (publicKey bob), (if pk_isOdd (publicKey bob) then 1 else 0), 0])
       = root (init bob_root)
   \<and> (val d_agree = 1 \<or> val d_agree = 2) \<and> disagreeVotes (init bob_root) \<noteq> - 1
   \<and> (\<exists>c''. vote toy_hash bob d_agree bob_path (init bob_root) = Inr c'')"
proof -
  have a: "val d_agree = 1 \<or> val d_agree = 2"
    by (simp add: d_agree_def)
  have b: "disagreeVotes (init bob_root) \<noteq> - 1"
    by (simp add: init_eq)
  from a b vote_bob_agree_after
    vote_checks_zeroed_record [where H = toy_hash and voter = bob and claimed = d_disagree
      and d = d_agree and path = bob_path and c = "init bob_root" and c' = after_bob and k = 9]
  show ?thesis by metis
qed

subsection \<open>C9: the fields vote leaves alone\<close>

text \<open>
  C9. No call of \<open>vote\<close>, whether it succeeds or fails, changes \<open>disagreeVotes\<close>,
  \<open>title\<close> or \<open>description\<close>.
\<close>

theorem vote_leaves_disagreeVotes_title_description:
  "(vote H voter d path c = Inr c'
      \<longrightarrow> disagreeVotes c' = disagreeVotes c \<and> title c' = title c
          \<and> description c' = description c)
   \<and> disagreeVotes (apply_vote H voter d path c) = disagreeVotes c
   \<and> title (apply_vote H voter d path c) = title c
   \<and> description (apply_vote H voter d path c) = description c"
  by (auto simp: vote_eq apply_vote_def)

theorem vote_leaves_disagreeVotes_title_description_witness:
  "vote toy_hash bob d_agree bob_path (init bob_root) = Inr after_bob
   \<and> disagreeVotes after_bob = disagreeVotes (init bob_root)
   \<and> title after_bob = title (init bob_root)
   \<and> description after_bob = description (init bob_root)"
  using vote_leaves_disagreeVotes_title_description
      [of toy_hash bob d_agree bob_path "init bob_root" after_bob]
    vote_bob_agree_after
  by blast

subsection \<open>C10: records that differ in the decision only\<close>

text \<open>
  C10. Two calls of \<open>vote\<close> on the same state, with the same decision argument and the
  same path, and with voter records that have the same public key, have the same
  outcome: both fail or both succeed with the same new state.
\<close>

theorem vote_same_key_same_outcome:
  assumes "publicKey voter1 = publicKey voter2"
  shows "vote H voter1 d path c = vote H voter2 d path c
         \<and> apply_vote H voter1 d path c = apply_vote H voter2 d path c"
  using assms by (simp add: vote_eq apply_vote_def)

theorem vote_same_key_same_outcome_witness:
  "publicKey bob = publicKey (bob\<lparr>decision := d_disagree\<rparr>)
   \<and> vote toy_hash bob d_agree bob_path (init bob_root)
       = vote toy_hash (bob\<lparr>decision := d_disagree\<rparr>) d_agree bob_path (init bob_root)
   \<and> vote toy_hash (bob\<lparr>decision := d_disagree\<rparr>) d_agree bob_path (init bob_root) = Inr after_bob"
proof -
  have "publicKey bob = publicKey (bob\<lparr>decision := d_disagree\<rparr>)"
    by simp
  from this vote_same_key_same_outcome [OF this, of toy_hash d_agree bob_path "init bob_root"]
    vote_bob_agree_after
  show ?thesis by simp
qed

subsection \<open>C1 and C4: the counters\<close>

text \<open>
  In every state that accepted votes lead to from \<open>init\<close>, \<open>disagreeVotes\<close> is still
  zero and \<open>agreeVotes\<close> is zero or one: an accepted vote sets \<open>agreeVotes\<close> to
  \<open>disagreeVotes + 1\<close>. So from \<open>init\<close> no counter ever decreases, and only the first
  accepted vote increments one.
\<close>

lemma reachable_counters:
  "reachable H r c \<Longrightarrow> disagreeVotes c = 0 \<and> (agreeVotes c = 0 \<or> agreeVotes c = 1)"
  by (induction rule: reachable.induct) (auto simp: init_eq vote_Inr_iff)

lemma reachable_vote_counters:
  assumes "reachable H r c" and "vote H voter d path c = Inr c'"
  shows "agreeVotes c \<le> agreeVotes c' \<and> agreeVotes c' = 1 \<and> disagreeVotes c' = disagreeVotes c"
proof -
  from assms(1) have "disagreeVotes c = 0" and "agreeVotes c = 0 \<or> agreeVotes c = 1"
    using reachable_counters by blast+
  with assms(2) show ?thesis
    by (auto simp: vote_Inr_iff)
qed

text \<open>
  C1. A call of \<open>vote\<close> that passes validation updates exactly one tally: \<open>agreeVotes\<close>
  for decision 1, \<open>disagreeVotes\<close> for decision 2, the other one unchanged. The code
  does not: on the state \<open>init\<close> leaves, Bob's vote with decision 2 is accepted, adds one
  to \<open>agreeVotes\<close> and leaves \<open>disagreeVotes\<close> at zero.
\<close>

theorem vote_disagree_increments_agreeVotes:
  "vote toy_hash bob d_disagree bob_path (init bob_root)
     = Inr \<lparr>root = calculateRoot toy_hash bob_path (leaf_hash toy_hash (publicKey bob) 2),
        agreeVotes = agreeVotes (init bob_root) + 1,
        disagreeVotes = disagreeVotes (init bob_root), title = 0, description = 0\<rparr>
   \<and> val d_disagree = 2 \<and> agreeVotes (init bob_root) = 0 \<and> disagreeVotes (init bob_root) = 0"
  by (simp add: vote_eq bob_root_eq init_eq d_disagree_def)

text \<open>
  C4. Over every sequence of accepted votes from \<open>init\<close> the counters never decrease,
  and each accepted vote increments exactly one counter by one. The code does not do
  the second: after Bob's accepted vote, Alice's vote with decision 1 and her path in
  the updated tree is accepted too, and leaves both counters as they were.
\<close>

theorem second_accepted_vote_increments_no_counter:
  "vote toy_hash bob d_agree bob_path (init bob_root) = Inr after_bob
   \<and> vote toy_hash alice d_agree alice_path after_bob
       = Inr (after_bob\<lparr>root :=
           calculateRoot toy_hash alice_path (leaf_hash toy_hash (publicKey alice) 1)\<rparr>)
   \<and> agreeVotes after_bob = 1 \<and> disagreeVotes after_bob = 0"
proof -
  have "vote toy_hash alice d_agree alice_path after_bob
       = Inr (after_bob\<lparr>root :=
           calculateRoot toy_hash alice_path (leaf_hash toy_hash (publicKey alice) 1)\<rparr>)"
    using alice_path_root by (simp add: vote_eq d_agree_def) (simp add: after_bob_eq)
  moreover have "agreeVotes after_bob = 1 \<and> disagreeVotes after_bob = 0"
    by (simp add: after_bob_eq)
  ultimately show ?thesis
    using vote_bob_agree_after by simp
qed

subsection \<open>C5: voting twice\<close>

text \<open>
  C5 says that a second vote for the same identity, with the same decision and a proof
  for the then-current tree, succeeds again. It does not: after Bob's accepted vote his
  leaf holds the record with decision 1, his path still leads from that leaf to the
  committed root, and the contract, which hashes the record with decision 0, rejects
  the call.
\<close>

theorem second_vote_of_bob_rejected:
  "vote toy_hash bob d_agree bob_path (init bob_root) = Inr after_bob
   \<and> calculateRoot toy_hash bob_path (hash toy_hash (setDecision bob d_agree))
       = root after_bob
   \<and> vote toy_hash (setDecision bob d_agree) d_agree bob_path after_bob = Inl AssertEqualsFailed
   \<and> apply_vote toy_hash (setDecision bob d_agree) d_agree bob_path after_bob = after_bob"
proof -
  have a: "calculateRoot toy_hash bob_path (hash toy_hash (setDecision bob d_agree))
       = root after_bob"
    by (simp add: hash_setDecision after_bob_eq d_agree_def)
  have b: "vote toy_hash (setDecision bob d_agree) d_agree bob_path after_bob
      = Inl AssertEqualsFailed"
    using bob_roots_differ(1)
    by (simp add: vote_eq publicKey_setDecision bob_root_eq after_bob_eq d_agree_def)
  from a b vote_bob_agree_after show ?thesis
    by (simp add: apply_vote_def)
qed

text \<open>
  C5 as amended. Take an identity whose record with decision zero recomputes the
  committed root under a path, a decision 1 or 2, and a state whose \<open>disagreeVotes\<close> is
  below its maximum (as it is in every state reached from \<open>init\<close>). The first vote
  succeeds. A second vote for the same identity with the same decision, with a path
  that recomputes the root then committed from the hash of the identity's record as
  voted (the path of the updated leaf in the then-current tree), is rejected by the
  membership assertion and changes nothing, unless the record with decision zero
  recomputes the same root under that second path as the record as voted does (a
  collision of the hash).
\<close>

theorem second_vote_rejected:
  assumes "val d = 1 \<or> val d = 2"
    and "calculateRoot H path (hash H (voter\<lparr>decision := \<lparr>oid = k, val = 0\<rparr>\<rparr>)) = root c"
    and "disagreeVotes c \<noteq> - 1"
    and "publicKey voter' = publicKey voter"
    and "calculateRoot H path' (hash H (voter\<lparr>decision := d\<rparr>))
           = root (apply_vote H voter d path c)"
    and "calculateRoot H path' (hash H (voter\<lparr>decision := \<lparr>oid = k, val = 0\<rparr>\<rparr>))
           \<noteq> calculateRoot H path' (hash H (voter\<lparr>decision := d\<rparr>))"
  shows "vote H voter d path c = Inr (apply_vote H voter d path c)
         \<and> vote H voter' d path' (apply_vote H voter d path c) = Inl AssertEqualsFailed
         \<and> apply_vote H voter' d path' (apply_vote H voter d path c)
             = apply_vote H voter d path c"
proof -
  from assms(1) have valid: "val d \<noteq> 0" "val d < 3"
    using decision_range [of "val d"] by simp_all
  from assms(2) have member: "calculateRoot H path (leaf_hash H (publicKey voter) 0) = root c"
    by (simp add: hash_update)
  from valid member assms(3)
  have first: "vote H voter d path c = Inr (apply_vote H voter d path c)"
    by (simp add: vote_eq apply_vote_def)
  from assms(4-6)
  have "calculateRoot H path' (leaf_hash H (publicKey voter') 0)
      \<noteq> root (apply_vote H voter d path c)"
    by (simp add: hash_update)
  with valid have "vote H voter' d path' (apply_vote H voter d path c) = Inl AssertEqualsFailed"
    by (simp add: vote_eq [of H voter' d path'])
  with first show ?thesis
    by (simp add: apply_vote_def [of H voter' d path'])
qed

theorem second_vote_rejected_witness:
  "(val d_agree = 1 \<or> val d_agree = 2)
   \<and> calculateRoot toy_hash bob_path (hash toy_hash (bob\<lparr>decision := \<lparr>oid = 9, val = 0\<rparr>\<rparr>))
       = root (init bob_root)
   \<and> disagreeVotes (init bob_root) \<noteq> - 1
   \<and> publicKey (bob\<lparr>decision := d_agree\<rparr>) = publicKey bob
   \<and> calculateRoot toy_hash bob_path (hash toy_hash (bob\<lparr>decision := d_agree\<rparr>))
       = root (apply_vote toy_hash bob d_agree bob_path (init bob_root))
   \<and> calculateRoot toy_hash bob_path (hash toy_hash (bob\<lparr>decision := \<lparr>oid = 9, val = 0\<rparr>\<rparr>))
       \<noteq> calculateRoot toy_hash bob_path (hash toy_hash (bob\<lparr>decision := d_agree\<rparr>))
   \<and> vote toy_hash bob d_agree bob_path (init bob_root)
       = Inr (apply_vote toy_hash bob d_agree bob_path (init bob_root))
   \<and> vote toy_hash (bob\<lparr>decision := d_agree\<rparr>) d_agree bob_path
        (apply_vote toy_hash bob d_agree bob_path (init bob_root)) = Inl AssertEqualsFailed
   \<and> apply_vote toy_hash (bob\<lparr>decision := d_agree\<rparr>) d_agree bob_path
        (apply_vote toy_hash bob d_agree bob_path (init bob_root))
       = apply_vote toy_hash bob d_agree bob_path (init bob_root)"
proof -
  have a: "val d_agree = 1 \<or> val d_agree = 2"
    by (simp add: d_agree_def)
  have b: "calculateRoot toy_hash bob_path
      (hash toy_hash (bob\<lparr>decision := \<lparr>oid = 9, val = 0\<rparr>\<rparr>)) = root (init bob_root)"
    by (simp add: hash_update bob_root_eq init_eq)
  have c: "disagreeVotes (init bob_root) \<noteq> - 1"
    by (simp add: init_eq)
  have d: "publicKey (bob\<lparr>decision := d_agree\<rparr>) = publicKey bob"
    by simp
  have e: "calculateRoot toy_hash bob_path (hash toy_hash (bob\<lparr>decision := d_agree\<rparr>))
       = root (apply_vote toy_hash bob d_agree bob_path (init bob_root))"
    using after_bob_eq by (simp add: hash_update after_bob_def d_agree_def)
  have f: "calculateRoot toy_hash bob_path
        (hash toy_hash (bob\<lparr>decision := \<lparr>oid = 9, val = 0\<rparr>\<rparr>))
       \<noteq> calculateRoot toy_hash bob_path (hash toy_hash (bob\<lparr>decision := d_agree\<rparr>))"
    using bob_roots_differ(1)
    by (simp add: hash_update bob_root_eq d_agree_def)
  from second_vote_rejected [OF a b c d e f] a b c d e f
  show ?thesis by blast
qed

text \<open>
  The condition on the second path is needed. When the same record is stored at two
  leaves, the second leaf still holds the record with decision zero after a vote
  through the first, and a vote through the second leaf's path is accepted.
\<close>

lemma second_leaf_vote_accepted:
  "vote toy_hash bob d_agree twin_path0 (init twin_root) = Inr after_twin
   \<and> vote toy_hash (bob\<lparr>decision := d_agree\<rparr>) d_agree twin_path1 after_twin
       = Inr (after_twin\<lparr>root :=
           calculateRoot toy_hash twin_path1 (leaf_hash toy_hash (publicKey bob) 1)\<rparr>)"
proof -
  have r: "calculateRoot toy_hash twin_path0 (leaf_hash toy_hash (publicKey bob) 0) = twin_root"
    by (simp add: twin_root_def hash_leaf_hash bob_def)
  have v: "vote toy_hash bob d_agree twin_path0 (init twin_root)
     = Inr \<lparr>root = calculateRoot toy_hash twin_path0 (leaf_hash toy_hash (publicKey bob) 1),
        agreeVotes = 1, disagreeVotes = 0, title = 0, description = 0\<rparr>"
    by (simp add: vote_eq r init_eq d_agree_def)
  then have t: "after_twin
     = \<lparr>root = calculateRoot toy_hash twin_path0 (leaf_hash toy_hash (publicKey bob) 1),
        agreeVotes = 1, disagreeVotes = 0, title = 0, description = 0\<rparr>"
    by (simp add: after_twin_def apply_vote_def)
  have p: "calculateRoot toy_hash twin_path1 (leaf_hash toy_hash (publicKey bob) 0)
      = root after_twin"
    by (simp add: t twin_path1_def twin_path0_def hash_update hash_leaf_hash d_agree_def bob_def)
  have "vote toy_hash (bob\<lparr>decision := d_agree\<rparr>) d_agree twin_path1 after_twin
       = Inr (after_twin\<lparr>root :=
           calculateRoot toy_hash twin_path1 (leaf_hash toy_hash (publicKey bob) 1)\<rparr>)"
    using p by (simp add: vote_eq d_agree_def) (simp add: t)
  with v t show ?thesis by simp
qed

end
